theory Spec2Isabelle
  imports Main "HOL-Library.Sublist"
begin

section \<open>The auto-reloader of \<^verbatim>\<open>sanic/reloader_helpers.py\<close>\<close>

text \<open>
  The module supervises a worker process: it launches the worker with the command line of
  the supervisor itself, polls the modification times of the files of all loaded modules,
  and kills and relaunches the worker when one of them advances.

  Everything the module asks of the interpreter and of the operating system is a field of
  the record \<open>world\<close>: one snapshot of what the calls return while one step of the
  program runs. Everything the module does to the operating system is an \<open>event\<close>; an
  effectful function returns the events it emitted, in order, and how it ended.
\<close>

subsection \<open>Data\<close>

text \<open>The exceptions that the modelled calls can raise.\<close>

datatype py_error =
    RuntimeError string
  | IndexError
  | ValueError
  | ProcessLookupError
  | PermissionError
  | OSError

text \<open>A computation stops early by an exception or by \<^verbatim>\<open>os._exit(status)\<close>.\<close>

datatype stop = Raised py_error | Exited int

text \<open>\<^verbatim>\<open>subprocess.Popen\<close> handles; \<open>pid\<close> is the attribute \<^verbatim>\<open>proc.pid\<close>.\<close>

datatype proc = Popen (pid: int)

datatype event =
    SigTerm int               \<comment> \<open>\<^verbatim>\<open>os.kill(pid, signal.SIGTERM)\<close> was called\<close>
  | Run "string list"         \<comment> \<open>\<^verbatim>\<open>subprocess.run(args)\<close>\<close>
  | Terminate proc            \<comment> \<open>\<^verbatim>\<open>proc.terminate()\<close>\<close>
  | Spawn "string list" proc  \<comment> \<open>\<^verbatim>\<open>subprocess.Popen(args, ...)\<close> returned the handle\<close>
  | Sleep                     \<comment> \<open>\<^verbatim>\<open>sleep(sleep_interval)\<close>\<close>

type_synonym 'a io = "event list \<times> (stop + 'a)"

text \<open>The attribute \<^verbatim>\<open>__spec__\<close> of a module, and a module of \<^verbatim>\<open>sys.modules\<close>.\<close>

record module_spec =
  name :: string

record py_module =
  module_file :: "string option"     \<comment> \<open>\<^verbatim>\<open>getattr(module, "__file__", None)\<close>\<close>

record 't world =
  platform :: string                         \<comment> \<open>\<^verbatim>\<open>sys.platform\<close>\<close>
  executable :: string                       \<comment> \<open>\<^verbatim>\<open>sys.executable\<close>\<close>
  argv :: "string list"                      \<comment> \<open>\<^verbatim>\<open>sys.argv\<close>\<close>
  main_spec :: "module_spec option"          \<comment> \<open>\<^verbatim>\<open>__spec__\<close> of \<^verbatim>\<open>sys.modules["__main__"]\<close>\<close>
  modules :: "py_module option list"         \<comment> \<open>\<^verbatim>\<open>list(sys.modules.values())\<close>\<close>
  getcwd :: string                           \<comment> \<open>\<^verbatim>\<open>os.getcwd()\<close>\<close>
  environ :: "string \<rightharpoonup> string"           \<comment> \<open>\<^verbatim>\<open>os.environ\<close>\<close>
  isfile :: "string \<Rightarrow> bool"                 \<comment> \<open>\<^verbatim>\<open>os.path.isfile\<close>\<close>
  read_file :: "string \<Rightarrow> string"            \<comment> \<open>\<^verbatim>\<open>open(path).read()\<close>\<close>
  stat_mtime :: "string \<Rightarrow> 't option"        \<comment> \<open>\<^verbatim>\<open>os.stat(path).st_mtime\<close>; \<open>None\<close>: \<^verbatim>\<open>OSError\<close>\<close>
  to_int :: "string \<Rightarrow> int option"           \<comment> \<open>\<^verbatim>\<open>int(token)\<close>; \<open>None\<close>: \<^verbatim>\<open>ValueError\<close>\<close>
  kill :: "int \<Rightarrow> py_error option"           \<comment> \<open>the exception of \<^verbatim>\<open>os.kill(pid, SIGTERM)\<close>, if any\<close>
  popen :: "string list \<Rightarrow> string \<Rightarrow> (string \<rightharpoonup> string) \<Rightarrow> py_error + proc"
                                             \<comment> \<open>\<^verbatim>\<open>subprocess.Popen(args, cwd=..., env=...)\<close>\<close>

text \<open>Sequencing: the second computation runs only when the first one returned.\<close>

definition bind :: "'a io \<Rightarrow> ('a \<Rightarrow> 'b io) \<Rightarrow> 'b io" where
  "bind m f =
     (case m of
        (es, Inl s) \<Rightarrow> (es, Inl s)
      | (es, Inr a) \<Rightarrow> (case f a of (es', r) \<Rightarrow> (es @ es', r)))"

subsection \<open>\<^verbatim>\<open>_get_args_for_reloading\<close> and \<^verbatim>\<open>restart_with_reloader\<close>\<close>

text \<open>
  \<^verbatim>\<open>repr\<close> of a string without quotes, backslashes or unprintable characters: the
  string between two apostrophes. Only \<^verbatim>\<open>""\<close> and \<^verbatim>\<open>"-c"\<close> reach it.
\<close>

definition repr :: "string \<Rightarrow> string" where
  "repr s = [CHR 0x27] @ s @ [CHR 0x27]"

definition get_args_for_reloading :: "'t world \<Rightarrow> py_error + string list" where
  "get_args_for_reloading w =
     (let mod_spec = main_spec w in
      case argv w of
        [] \<Rightarrow> Inl IndexError
      | argv0 # rest \<Rightarrow>
          if argv0 \<in> {'''', ''-c''}
          then Inl (RuntimeError (''Autoreloader cannot work with argv[0]='' @ repr argv0))
          else (case mod_spec of
                  Some sp \<Rightarrow> Inr ([executable w, ''-m'', name sp] @ rest)
                | None \<Rightarrow> Inr ([executable w] @ argv w)))"

definition restart_with_reloader :: "'t world \<Rightarrow> proc io" where
  "restart_with_reloader w =
     (case get_args_for_reloading w of
        Inl e \<Rightarrow> ([], Inl (Raised e))
      | Inr args \<Rightarrow>
          (case popen w args (getcwd w) ((environ w)(''SANIC_SERVER_RUNNING'' \<mapsto> ''true'')) of
             Inl e \<Rightarrow> ([], Inl (Raised e))
           | Inr p \<Rightarrow> ([Spawn args p], Inr p)))"

subsection \<open>\<^verbatim>\<open>_iter_module_files\<close>\<close>

text \<open>
  \<^verbatim>\<open>os.path.dirname\<close> of a POSIX host (\<^verbatim>\<open>posixpath.dirname\<close>):
  \<^verbatim>\<open>
  i = p.rfind('/') + 1
  head = p[:i]
  if head and head != '/' * len(head):
      head = head.rstrip('/')
  return head
  \<close>
  \<open>rfind_sep p\<close> is \<^verbatim>\<open>p.rfind('/') + 1\<close>: the length of \<open>p\<close> without the characters
  after its last slash, and 0 when it has no slash.
\<close>

definition rfind_sep :: "string \<Rightarrow> nat" where
  "rfind_sep p = length p - length (takeWhile (\<lambda>c. c \<noteq> CHR ''/'') (rev p))"

definition rstrip_sep :: "string \<Rightarrow> string" where
  "rstrip_sep p = rev (dropWhile (\<lambda>c. c = CHR ''/'') (rev p))"

definition dirname :: "string \<Rightarrow> string" where
  "dirname p =
     (let i = rfind_sep p; head = take i p in
      if head \<noteq> [] \<and> head \<noteq> replicate (length head) (CHR ''/'')
      then rstrip_sep head else head)"

lemma rstrip_sep_prefix: "prefix (rstrip_sep p) p"
proof -
  have "p = rev (dropWhile (\<lambda>c. c = CHR ''/'') (rev p)) @ rev (takeWhile (\<lambda>c. c = CHR ''/'') (rev p))"
    by (metis rev_append rev_rev_ident takeWhile_dropWhile_id)
  then show ?thesis
    unfolding rstrip_sep_def by (metis prefixI)
qed

lemma dirname_prefix: "prefix (dirname p) p"
proof -
  have "prefix (rstrip_sep (take (rfind_sep p) p)) (take (rfind_sep p) p)"
    by (rule rstrip_sep_prefix)
  then have "prefix (rstrip_sep (take (rfind_sep p) p)) p"
    using prefix_order.order_trans take_is_prefix by blast
  then show ?thesis
    by (simp add: dirname_def Let_def take_is_prefix)
qed

lemma dirname_shrinks: "dirname p \<noteq> p \<Longrightarrow> length (dirname p) < length p"
  using dirname_prefix [of p] by (metis le_neq_implies_less prefix_length_le prefix_length_prefix prefix_order.eq_iff prefix_order.order_refl)

text \<open>
  The loop of lines 23 to 32 for one file name:
  \<^verbatim>\<open>
  while not os.path.isfile(filename):
      old = filename
      filename = os.path.dirname(filename)
      if filename == old:
          break
  else:
      ...
  \<close>
  \<open>Some f\<close>: the condition became false at \<open>f\<close> and the \<^verbatim>\<open>else\<close> branch runs
  with it; \<open>None\<close>: the loop was left by \<^verbatim>\<open>break\<close>.
\<close>

function find_file :: "(string \<Rightarrow> bool) \<Rightarrow> string \<Rightarrow> string option" where
  "find_file isf filename =
     (if isf filename then Some filename
      else if dirname filename = filename then None
      else find_file isf (dirname filename))"
  by pat_completeness auto
termination
  by (relation "measure (\<lambda>(isf, filename). length filename)") (auto simp: dirname_shrinks)

declare find_file.simps [simp del]

text \<open>
  The \<^verbatim>\<open>else\<close> branch: \<^verbatim>\<open>filename[-4:]\<close> is the whole string when it has fewer than
  four characters, and \<^verbatim>\<open>filename[:-1]\<close> drops the last character.
\<close>

definition source_name :: "string \<Rightarrow> string" where
  "source_name filename =
     (if drop (length filename - 4) filename \<in> {''.pyc'', ''.pyo''}
      then butlast filename else filename)"

text \<open>What one entry of \<^verbatim>\<open>sys.modules.values()\<close> yields.\<close>

definition module_files :: "(string \<Rightarrow> bool) \<Rightarrow> py_module option \<Rightarrow> string list" where
  "module_files isf module =
     (case module of
        None \<Rightarrow> []
      | Some m \<Rightarrow>
          (case module_file m of
             None \<Rightarrow> []
           | Some filename \<Rightarrow>
               if filename = [] then []
               else (case find_file isf filename of
                       None \<Rightarrow> []
                     | Some f \<Rightarrow> [source_name f])))"

definition iter_module_files :: "'t world \<Rightarrow> string list" where
  "iter_module_files w = concat (map (module_files (isfile w)) (modules w))"

subsection \<open>Killing the children of a process\<close>

text \<open>\<^verbatim>\<open>str\<close> of an integer: its decimal digits, after a minus sign when it is negative.\<close>

definition digit_char :: "nat \<Rightarrow> char" where
  "digit_char d = ''0123456789'' ! d"

function str_nat :: "nat \<Rightarrow> string" where
  "str_nat n = (if n < 10 then [digit_char n] else str_nat (n div 10) @ [digit_char (n mod 10)])"
  by pat_completeness auto
termination
  by (relation "measure (\<lambda>n. n)") auto

declare str_nat.simps [simp del]

definition str_int :: "int \<Rightarrow> string" where
  "str_int i = (if i < 0 then CHR ''-'' # str_nat (nat (- i)) else str_nat (nat i))"

text \<open>
  \<^verbatim>\<open>str.split()\<close> without arguments: the maximal runs of characters that are not white
  space. The white space among the code points below 256 is listed.
\<close>

definition is_space :: "char \<Rightarrow> bool" where
  "is_space c \<longleftrightarrow>
     c \<in> {CHR 0x09, CHR 0x0A, CHR 0x0B, CHR 0x0C, CHR 0x0D, CHR 0x1C, CHR 0x1D, CHR 0x1E,
          CHR 0x1F, CHR 0x20, CHR 0x85, CHR 0xA0}"

fun split_from :: "string \<Rightarrow> string \<Rightarrow> string list" where
  "split_from cur [] = (if cur = [] then [] else [rev cur])"
| "split_from cur (c # cs) =
     (if is_space c
      then (if cur = [] then split_from [] cs else rev cur # split_from [] cs)
      else split_from (c # cur) cs)"

definition str_split :: "string \<Rightarrow> string list" where
  "str_split s = split_from [] s"

text \<open>
  The path \<^verbatim>\<open>"/proc/%s/task/%s/children"\<close> of a process whose id is written \<open>p\<close>.
\<close>

definition children_path :: "string \<Rightarrow> string" where
  "children_path p = ''/proc/'' @ p @ ''/task/'' @ p @ ''/children''"

text \<open>
  The block used for a grandchild (lines 82 to 85) and for a child (lines 86 to 89):
  \<^verbatim>\<open>
  try:
      os.kill(int(_pid), signal.SIGTERM)
  except ProcessLookupError:
      continue
  \<close>
  \<^verbatim>\<open>int\<close> runs before \<^verbatim>\<open>os.kill\<close> is called; only \<^verbatim>\<open>ProcessLookupError\<close> is caught.
\<close>

definition kill_or_continue :: "'t world \<Rightarrow> string \<Rightarrow> unit io" where
  "kill_or_continue w token =
     (case to_int w token of
        None \<Rightarrow> ([], Inl (Raised ValueError))
      | Some n \<Rightarrow>
          (case kill w n of
             None \<Rightarrow> ([SigTerm n], Inr ())
           | Some e \<Rightarrow>
               if e = ProcessLookupError then ([SigTerm n], Inr ())
               else ([SigTerm n], Inl (Raised e))))"

text \<open>The inner loop, over \<^verbatim>\<open>children_list_pid_2\<close>.\<close>

fun kill_grandchildren :: "'t world \<Rightarrow> string list \<Rightarrow> unit io" where
  "kill_grandchildren w [] = ([], Inr ())"
| "kill_grandchildren w (token # rest) =
     bind (kill_or_continue w token) (\<lambda>_. kill_grandchildren w rest)"

text \<open>The outer loop, over \<^verbatim>\<open>children_list_pid\<close>.\<close>

fun kill_children :: "'t world \<Rightarrow> string list \<Rightarrow> unit io" where
  "kill_children w [] = ([], Inr ())"
| "kill_children w (child_pid # rest) =
     (let children_proc_path = children_path child_pid in
      if \<not> isfile w children_proc_path then kill_children w rest
      else
        bind (kill_grandchildren w (str_split (read_file w children_proc_path))) (\<lambda>_.
        bind (kill_or_continue w child_pid) (\<lambda>_.
        kill_children w rest)))"

definition kill_process_children_unix :: "'t world \<Rightarrow> int \<Rightarrow> unit io" where
  "kill_process_children_unix w root_pid =
     (let root_process_path = children_path (str_int root_pid) in
      if \<not> isfile w root_process_path then ([], Inr ())
      else kill_children w (str_split (read_file w root_process_path)))"

definition kill_process_children_osx :: "'t world \<Rightarrow> int \<Rightarrow> unit io" where
  "kill_process_children_osx w root_pid = ([Run [''pkill'', ''-P'', str_int root_pid]], Inr ())"

definition kill_process_children :: "'t world \<Rightarrow> int \<Rightarrow> unit io" where
  "kill_process_children w root_pid =
     (if platform w = ''darwin'' then kill_process_children_osx w root_pid
      else if platform w = ''linux'' then kill_process_children_unix w root_pid
      else ([], Inr ()))"

text \<open>\<^verbatim>\<open>os._exit(0)\<close> does not return: the computation ends in \<open>Exited 0\<close>.\<close>

definition kill_program_completely :: "'t world \<Rightarrow> proc \<Rightarrow> 'a io" where
  "kill_program_completely w proc =
     bind (kill_process_children w (pid proc)) (\<lambda>_.
     ([Terminate proc], Inl (Exited 0)))"

subsection \<open>The watchdog\<close>

text \<open>
  The \<^verbatim>\<open>for\<close> loop of lines 143 to 154, over the file names that
  \<^verbatim>\<open>_iter_module_files()\<close> yields. \<open>stat\<close> is \<open>stat_mtime\<close> of the world.
\<close>

fun scan_files ::
  "(string \<Rightarrow> 't::linorder option) \<Rightarrow> string list \<Rightarrow> (string \<rightharpoonup> 't) \<Rightarrow> bool \<Rightarrow> (string \<rightharpoonup> 't) \<times> bool"
where
  "scan_files stat [] mtimes need_reload = (mtimes, need_reload)"
| "scan_files stat (filename # rest) mtimes need_reload =
     (case stat filename of
        None \<Rightarrow> scan_files stat rest mtimes need_reload
      | Some mtime \<Rightarrow>
          (case mtimes filename of
             None \<Rightarrow> scan_files stat rest (mtimes(filename \<mapsto> mtime)) need_reload
           | Some old_time \<Rightarrow>
               if mtime > old_time
               then scan_files stat rest (mtimes(filename \<mapsto> mtime)) True
               else scan_files stat rest mtimes need_reload))"

text \<open>
  The variables of \<^verbatim>\<open>watchdog\<close> that outlive an iteration, and the place the loop is at.
  The loop is cut where the worker's process tree, the worker or the handle changes:
  \<open>Poll\<close> is lines 141 to 156, \<open>Reload_Kill\<close> line 157, \<open>Reload_Terminate\<close> line 158,
  \<open>Reload_Launch\<close> line 159 and \<open>Sleeping\<close> line 161.
\<close>

datatype point = Poll | Reload_Kill | Reload_Terminate | Reload_Launch | Sleeping

record 't watchdog_state =
  point :: point
  mtimes :: "string \<rightharpoonup> 't"
  worker_process :: proc

definition step :: "('t::linorder) world \<Rightarrow> 't watchdog_state \<Rightarrow> 't watchdog_state io" where
  "step w s =
     (case point s of
        Poll \<Rightarrow>
          (case scan_files (stat_mtime w) (iter_module_files w) (mtimes s) False of
             (mt, need_reload) \<Rightarrow>
               ([], Inr (s\<lparr>mtimes := mt,
                           point := (if need_reload then Reload_Kill else Sleeping)\<rparr>)))
      | Reload_Kill \<Rightarrow>
          bind (kill_process_children w (pid (worker_process s))) (\<lambda>_.
          ([], Inr (s\<lparr>point := Reload_Terminate\<rparr>)))
      | Reload_Terminate \<Rightarrow>
          ([Terminate (worker_process s)], Inr (s\<lparr>point := Reload_Launch\<rparr>))
      | Reload_Launch \<Rightarrow>
          bind (restart_with_reloader w) (\<lambda>p.
          ([], Inr (s\<lparr>worker_process := p, point := Sleeping\<rparr>)))
      | Sleeping \<Rightarrow> ([Sleep], Inr (s\<lparr>point := Poll\<rparr>)))"

text \<open>
  The two handlers of lines 134 to 139. Each is a \<^verbatim>\<open>lambda\<close> that reads the variable
  \<^verbatim>\<open>worker_process\<close> of \<^verbatim>\<open>watchdog\<close> when it is called.
\<close>

datatype signum = SIGTERM | SIGINT

fun handler :: "signum \<Rightarrow> 't world \<Rightarrow> 't watchdog_state \<Rightarrow> 't watchdog_state io" where
  "handler SIGTERM w s = kill_program_completely w (worker_process s)"
| "handler SIGINT w s = kill_program_completely w (worker_process s)"

text \<open>
  What happens to the supervisor, in order: the loop advances by one step, or a signal is
  delivered between two steps. Each comes with the world it finds.
\<close>

datatype 't input = Step "'t world" | Signal signum "'t world"

fun run :: "('t::linorder) input list \<Rightarrow> 't watchdog_state \<Rightarrow> 't watchdog_state io" where
  "run [] s = ([], Inr s)"
| "run (Step w # ins) s = bind (step w s) (run ins)"
| "run (Signal sg w # ins) s = bind (handler sg w s) (run ins)"

text \<open>
  \<^verbatim>\<open>watchdog\<close>: lines 132 and 133 in the world \<open>w\<close>, the handlers, and then the loop.
\<close>

definition watchdog :: "('t::linorder) world \<Rightarrow> 't input list \<Rightarrow> 't watchdog_state io" where
  "watchdog w ins =
     bind (restart_with_reloader w) (\<lambda>p.
     run ins \<lparr>point = Poll, mtimes = Map.empty, worker_process = p\<rparr>)"

text \<open>
  One whole iteration of the loop (lines 141 to 161) in one world, from \<open>Poll\<close> to \<open>Poll\<close>.
\<close>

definition watchdog_iteration ::
  "('t::linorder) world \<Rightarrow> 't watchdog_state \<Rightarrow> 't watchdog_state io"
where
  "watchdog_iteration w s =
     (case scan_files (stat_mtime w) (iter_module_files w) (mtimes s) False of
        (mt, need_reload) \<Rightarrow>
          if need_reload then
            bind (kill_process_children w (pid (worker_process s))) (\<lambda>_.
            bind ([Terminate (worker_process s)], Inr ()) (\<lambda>_.
            bind (restart_with_reloader w) (\<lambda>p.
            ([Sleep], Inr (s\<lparr>mtimes := mt, worker_process := p\<rparr>)))))
          else ([Sleep], Inr (s\<lparr>mtimes := mt\<rparr>)))"

subsection \<open>Notions of the specification\<close>

text \<open>
  The tokens of the children list of the process written \<open>p\<close>, and the order in which the
  specification has the descendants of \<open>root_pid\<close> signalled: for each direct child whose
  own children list is present, its children and then the child itself.
\<close>

definition children_of :: "'t world \<Rightarrow> string \<Rightarrow> string list" where
  "children_of w p = str_split (read_file w (children_path p))"

definition signal_order :: "'t world \<Rightarrow> int \<Rightarrow> string list" where
  "signal_order w root_pid =
     concat (map (\<lambda>c. children_of w c @ [c])
       (filter (\<lambda>c. isfile w (children_path c)) (children_of w (str_int root_pid))))"

text \<open>
  A token is harmless when it is an integer and signalling that process either succeeds or
  finds no such process.
\<close>

definition harmless :: "'t world \<Rightarrow> string \<Rightarrow> bool" where
  "harmless w token =
     (case to_int w token of
        None \<Rightarrow> False
      | Some n \<Rightarrow> kill w n = None \<or> kill w n = Some ProcessLookupError)"


text \<open>
  A path has advanced when it can be stat-ed, the table has a time for it, and the time
  observed now is strictly greater.
\<close>

definition advanced :: "('t::linorder) world \<Rightarrow> (string \<rightharpoonup> 't) \<Rightarrow> string \<Rightarrow> bool" where
  "advanced w mt p =
     (case stat_mtime w p of
        None \<Rightarrow> False
      | Some t \<Rightarrow> (case mt p of None \<Rightarrow> False | Some old \<Rightarrow> old < t))"

subsection \<open>An example world\<close>

text \<open>
  The tokens of the example are plain decimal numerals; \<open>parse_pid\<close> reads them as
  \<^verbatim>\<open>int\<close> does.
\<close>

definition digit_value :: "char \<Rightarrow> nat option" where
  "digit_value c =
     map_of [(CHR ''0'', 0), (CHR ''1'', 1), (CHR ''2'', 2), (CHR ''3'', 3), (CHR ''4'', 4),
             (CHR ''5'', 5), (CHR ''6'', 6), (CHR ''7'', 7), (CHR ''8'', 8), (CHR ''9'', 9)] c"

fun decimal :: "nat \<Rightarrow> string \<Rightarrow> nat option" where
  "decimal acc [] = Some acc"
| "decimal acc (c # cs) =
     (case digit_value c of None \<Rightarrow> None | Some d \<Rightarrow> decimal (10 * acc + d) cs)"

definition parse_pid :: "string \<Rightarrow> int option" where
  "parse_pid s = (if s = [] then None else map_option int (decimal 0 s))"

text \<open>
  A supervisor started as \<^verbatim>\<open>python3 /srv/app/server.py --debug\<close> on Linux. Its worker
  is process 100, with the children 200 and 300; 200 has the children 400 and 401, of which
  401 has exited; the children list of 300 is absent.
\<close>

definition example_world :: "nat world" where
  "example_world =
     \<lparr>platform = ''linux'',
      executable = ''/usr/bin/python3'',
      argv = [''/srv/app/server.py'', ''--debug''],
      main_spec = None,
      modules =
        [None,
         Some \<lparr>module_file = None\<rparr>,
         Some \<lparr>module_file = Some ''''\<rparr>,
         Some \<lparr>module_file = Some ''/srv/app/server.py''\<rparr>,
         Some \<lparr>module_file = Some ''/srv/app/util.pyc''\<rparr>,
         Some \<lparr>module_file = Some ''/srv/lib.zip/pkg/mod.py''\<rparr>,
         Some \<lparr>module_file = Some ''/gone/a/b/c.py''\<rparr>],
      getcwd = ''/srv/app'',
      environ = Map.empty,
      isfile = (\<lambda>p. p \<in> set [''/srv/app/server.py'', ''/srv/app/util.pyc'', ''/srv/lib.zip'',
                               ''/proc/100/task/100/children'', ''/proc/200/task/200/children'']),
      read_file =
        (\<lambda>p. if p = ''/proc/100/task/100/children'' then ''200 300 ''
             else if p = ''/proc/200/task/200/children'' then ''400 401 ''
             else ''''),
      stat_mtime =
        (\<lambda>p. if p = ''/srv/app/server.py'' then Some 10
             else if p = ''/srv/lib.zip'' then Some 5
             else None),
      to_int = parse_pid,
      kill = (\<lambda>n. if n = 401 then Some ProcessLookupError else None),
      popen = (\<lambda>args cwd env. Inr (Popen 100))\<rparr>"




definition example_denied :: "nat world" where
  "example_denied =
     example_world\<lparr>kill := (\<lambda>n. if n = 400 then Some PermissionError else None)\<rparr>"

section \<open>Verification\<close>

lemmas world_simps =
  example_world_def iter_module_files_def module_files_def find_file.simps dirname_def
  rfind_sep_def rstrip_sep_def source_name_def get_args_for_reloading_def
  restart_with_reloader_def repr_def

lemmas kill_simps =
  kill_process_children_def kill_process_children_unix_def kill_process_children_osx_def
  kill_program_completely_def kill_or_continue_def children_path_def children_of_def
  signal_order_def harmless_def str_split_def is_space_def str_int_def str_nat.simps
  digit_char_def parse_pid_def digit_value_def bind_def

subsection \<open>The command line of the worker\<close>

text \<open>
  The interpreter always gives \<^verbatim>\<open>sys.argv\<close> a first element. Were the list empty,
  \<^verbatim>\<open>sys.argv[0]\<close> on line 39 would raise \<^verbatim>\<open>IndexError\<close>.
\<close>

lemma get_args_empty_argv: "argv w = [] \<Longrightarrow> get_args_for_reloading w = Inl IndexError"
  by (simp add: get_args_for_reloading_def)

text \<open>
  Claim C5. With a first argument in \<^verbatim>\<open>sys.argv\<close>, \<^verbatim>\<open>_get_args_for_reloading\<close> raises
  \<^verbatim>\<open>RuntimeError\<close> exactly when that argument is the empty string or \<^verbatim>\<open>"-c"\<close>, and
  returns a command exactly when it is neither. When it raises,
  \<^verbatim>\<open>restart_with_reloader\<close> and \<^verbatim>\<open>watchdog\<close> end with that error and no event: no
  child is started, whatever happens to the supervisor afterwards.
\<close>

theorem get_args_raises_iff_placeholder:
  "argv w = argv0 # rest \<Longrightarrow>
     ((\<exists>msg. get_args_for_reloading w = Inl (RuntimeError msg)) \<longleftrightarrow>
        argv0 = '''' \<or> argv0 = ''-c'') \<and>
     ((\<exists>cmd. get_args_for_reloading w = Inr cmd) \<longleftrightarrow> \<not> (argv0 = '''' \<or> argv0 = ''-c'')) \<and>
     (argv0 = '''' \<or> argv0 = ''-c'' \<longrightarrow>
        (\<exists>msg. restart_with_reloader w = ([], Inl (Raised (RuntimeError msg))) \<and>
               (\<forall>ins. watchdog w ins = ([], Inl (Raised (RuntimeError msg))))))"
  by (auto simp: get_args_for_reloading_def restart_with_reloader_def watchdog_def bind_def
           split: option.splits)

theorem get_args_raises_iff_placeholder_witness:
  "(\<exists>msg. watchdog (example_world\<lparr>argv := [''-c'', ''import app'']\<rparr>) [Step example_world] =
            ([], Inl (Raised (RuntimeError msg)))) \<and>
   (\<exists>cmd. get_args_for_reloading example_world = Inr cmd) \<and>
   (\<nexists>msg. get_args_for_reloading example_world = Inl (RuntimeError msg))"
  using get_args_raises_iff_placeholder
          [of "example_world\<lparr>argv := [''-c'', ''import app'']\<rparr>" "''-c''" "[''import app'']"]
        get_args_raises_iff_placeholder
          [of example_world "''/srv/app/server.py''" "[''--debug'']"]
  by (auto simp: example_world_def)

text \<open>
  Claim C6. When the function returns (its first argument is neither the empty string nor
  \<^verbatim>\<open>"-c"\<close>): with a module spec on \<^verbatim>\<open>__main__\<close> the command is the executable,
  \<^verbatim>\<open>"-m"\<close>, the name of the spec and \<^verbatim>\<open>sys.argv[1:]\<close>; without one it is the
  executable followed by all of \<^verbatim>\<open>sys.argv\<close>.
\<close>

theorem get_args_module_or_script:
  "argv w = argv0 # rest \<Longrightarrow> argv0 \<noteq> '''' \<Longrightarrow> argv0 \<noteq> ''-c'' \<Longrightarrow>
     (\<forall>sp. main_spec w = Some sp \<longrightarrow>
        get_args_for_reloading w = Inr ([executable w, ''-m'', name sp] @ tl (argv w))) \<and>
     (main_spec w = None \<longrightarrow> get_args_for_reloading w = Inr ([executable w] @ argv w))"
  by (auto simp: get_args_for_reloading_def)

theorem get_args_module_or_script_witness:
  "get_args_for_reloading
     (example_world\<lparr>argv := [''/srv/app/pkg/__main__.py'', ''--debug''],
                    main_spec := Some \<lparr>name = ''pkg.__main__''\<rparr>\<rparr>) =
     Inr [''/usr/bin/python3'', ''-m'', ''pkg.__main__'', ''--debug''] \<and>
   get_args_for_reloading example_world =
     Inr [''/usr/bin/python3'', ''/srv/app/server.py'', ''--debug'']"
  using get_args_module_or_script
          [of "example_world\<lparr>argv := [''/srv/app/pkg/__main__.py'', ''--debug''],
                             main_spec := Some \<lparr>name = ''pkg.__main__''\<rparr>\<rparr>"
              "''/srv/app/pkg/__main__.py''" "[''--debug'']"]
        get_args_module_or_script [of example_world "''/srv/app/server.py''" "[''--debug'']"]
  by (simp add: example_world_def)

subsection \<open>The files of the loaded modules\<close>

lemma find_file_Some:
  "find_file isf f = Some g \<Longrightarrow>
     \<exists>n. n \<le> length f \<and> g = (dirname ^^ n) f \<and> isf g \<and> (\<forall>k<n. \<not> isf ((dirname ^^ k) f))"
proof (induction isf f rule: find_file.induct)
  case (1 isf filename)
  show ?case
  proof (cases "isf filename")
    case True
    with "1.prems" have "g = filename" by (simp add: find_file.simps)
    with True show ?thesis by (intro exI[of _ 0]) simp
  next
    case False
    with "1.prems" have ne: "dirname filename \<noteq> filename"
      and rec: "find_file isf (dirname filename) = Some g"
      by (auto simp: find_file.simps[of isf filename] split: if_splits)
    from "1.IH"[OF False ne rec] obtain n where n: "n \<le> length (dirname filename)"
      "g = (dirname ^^ n) (dirname filename)" "isf g"
      "\<forall>k<n. \<not> isf ((dirname ^^ k) (dirname filename))" by blast
    have "Suc n \<le> length filename" using n(1) dirname_shrinks[OF ne] by simp
    moreover have "g = (dirname ^^ Suc n) filename" using n(2) by (simp add: funpow_swap1)
    moreover have "\<forall>k<Suc n. \<not> isf ((dirname ^^ k) filename)"
    proof (intro allI impI)
      fix k assume "k < Suc n"
      show "\<not> isf ((dirname ^^ k) filename)"
      proof (cases k)
        case 0 then show ?thesis using False by simp
      next
        case (Suc j)
        then show ?thesis using n(4) \<open>k < Suc n\<close> by (simp add: funpow_swap1)
      qed
    qed
    ultimately show ?thesis using n(3) by blast
  qed
qed

lemma find_file_None:
  "find_file isf f = None \<Longrightarrow>
     \<exists>n. n \<le> length f \<and> dirname ((dirname ^^ n) f) = (dirname ^^ n) f \<and>
         (\<forall>k\<le>n. \<not> isf ((dirname ^^ k) f))"
proof (induction isf f rule: find_file.induct)
  case (1 isf filename)
  from "1.prems" have nf: "\<not> isf filename"
    by (auto simp: find_file.simps[of isf filename] split: if_splits)
  show ?case
  proof (cases "dirname filename = filename")
    case True
    with nf show ?thesis by (intro exI[of _ 0]) simp
  next
    case False
    with "1.prems" nf have rec: "find_file isf (dirname filename) = None"
      by (auto simp: find_file.simps[of isf filename] split: if_splits)
    from "1.IH"[OF nf False rec] obtain n where n: "n \<le> length (dirname filename)"
      "dirname ((dirname ^^ n) (dirname filename)) = (dirname ^^ n) (dirname filename)"
      "\<forall>k\<le>n. \<not> isf ((dirname ^^ k) (dirname filename))" by blast
    have "Suc n \<le> length filename" using n(1) dirname_shrinks[OF False] by simp
    moreover have "dirname ((dirname ^^ Suc n) filename) = (dirname ^^ Suc n) filename"
      using n(2) by (simp add: funpow_swap1)
    moreover have "\<forall>k\<le>Suc n. \<not> isf ((dirname ^^ k) filename)"
    proof (intro allI impI)
      fix k assume "k \<le> Suc n"
      show "\<not> isf ((dirname ^^ k) filename)"
      proof (cases k)
        case 0 then show ?thesis using nf by simp
      next
        case (Suc j)
        then show ?thesis using n(3) \<open>k \<le> Suc n\<close> by (simp add: funpow_swap1)
      qed
    qed
    ultimately show ?thesis by blast
  qed
qed

text \<open>
  Claim C7. \<open>find_file\<close> is a total function: the walk ends for every file name and every
  file system, after at most as many \<open>dirname\<close> steps as the name has characters. Either
  it stops at the first ancestor that is a file, and the module yields that ancestor after
  the rewriting of its suffix; or no ancestor up to a fixed point of \<open>dirname\<close> is a file,
  and the module yields nothing.
\<close>

theorem ancestor_walk_ends:
  "filename \<noteq> [] \<Longrightarrow>
     (\<exists>n f. n \<le> length filename \<and> f = (dirname ^^ n) filename \<and> isf f \<and>
            (\<forall>k<n. \<not> isf ((dirname ^^ k) filename)) \<and>
            find_file isf filename = Some f \<and>
            module_files isf (Some \<lparr>module_file = Some filename\<rparr>) = [source_name f]) \<or>
     (\<exists>n. n \<le> length filename \<and>
          dirname ((dirname ^^ n) filename) = (dirname ^^ n) filename \<and>
          (\<forall>k\<le>n. \<not> isf ((dirname ^^ k) filename)) \<and>
          find_file isf filename = None \<and>
          module_files isf (Some \<lparr>module_file = Some filename\<rparr>) = [])"
proof (cases "find_file isf filename")
  case None
  assume "filename \<noteq> []"
  with None find_file_None[OF None] show ?thesis
    by (auto simp: module_files_def)
next
  case (Some f)
  assume "filename \<noteq> []"
  with Some find_file_Some[OF Some] show ?thesis
    by (auto simp: module_files_def)
qed

theorem ancestor_walk_ends_witness:
  "module_files (\<lambda>p. False) (Some \<lparr>module_file = Some ''/gone/a/b/c.py''\<rparr>) = [] \<and>
   (dirname ^^ 4) ''/gone/a/b/c.py'' = ''/'' \<and> dirname ''/'' = ''/'' \<and>
   module_files (isfile example_world) (Some \<lparr>module_file = Some ''/srv/lib.zip/pkg/mod.py''\<rparr>) =
     [''/srv/lib.zip''] \<and>
   (dirname ^^ 2) ''/srv/lib.zip/pkg/mod.py'' = ''/srv/lib.zip''"
  using ancestor_walk_ends [of "''/gone/a/b/c.py''" "\<lambda>p. False"]
        ancestor_walk_ends [of "''/srv/lib.zip/pkg/mod.py''" "isfile example_world"]
  by (simp add: world_simps numeral_2_eq_2 eval_nat_numeral)

lemma last_four_suffix:
  "length s = 4 \<Longrightarrow> drop (length f - 4) f = s \<longleftrightarrow> suffix s f"
proof
  assume "length s = 4" "drop (length f - 4) f = s"
  then show "suffix s f" by (metis suffix_drop)
next
  assume "length s = 4" "suffix s f"
  then show "drop (length f - 4) f = s" by (auto simp: suffix_def)
qed

text \<open>
  Claim C9. When the file that the walk found ends in \<^verbatim>\<open>.pyc\<close> or \<^verbatim>\<open>.pyo\<close>, the module
  yields that name without its last character, whether or not a file of that name exists:
  \<open>isfile\<close> is not asked about it. So a world exists in which
  \<^verbatim>\<open>_iter_module_files\<close> yields a path that is not a file.
\<close>

theorem rewritten_path_not_rechecked:
  "(Some m \<in> set (modules w) \<and> module_file m = Some filename \<and> filename \<noteq> [] \<and>
    find_file (isfile w) filename = Some f \<and> (suffix ''.pyc'' f \<or> suffix ''.pyo'' f) \<longrightarrow>
      module_files (isfile w) (Some m) = [butlast f] \<and>
      butlast f \<in> set (iter_module_files w)) \<and>
   (\<exists>(w' :: nat world) p. p \<in> set (iter_module_files w') \<and> \<not> isfile w' p)"
proof (intro conjI impI)
  assume a: "Some m \<in> set (modules w) \<and> module_file m = Some filename \<and> filename \<noteq> [] \<and>
    find_file (isfile w) filename = Some f \<and> (suffix ''.pyc'' f \<or> suffix ''.pyo'' f)"
  then have "drop (length f - 4) f = ''.pyc'' \<or> drop (length f - 4) f = ''.pyo''"
    by (simp add: last_four_suffix)
  with a show y: "module_files (isfile w) (Some m) = [butlast f]"
    by (auto simp: module_files_def source_name_def)
  with a show "butlast f \<in> set (iter_module_files w)"
    unfolding iter_module_files_def set_concat by force
next
  have "''/srv/app/util.py'' \<in> set (iter_module_files example_world) \<and>
        \<not> isfile example_world ''/srv/app/util.py''"
    by (simp add: world_simps)
  then show "\<exists>(w' :: nat world) p. p \<in> set (iter_module_files w') \<and> \<not> isfile w' p"
    by blast
qed

theorem rewritten_path_not_rechecked_witness:
  "module_files (isfile example_world) (Some \<lparr>module_file = Some ''/srv/app/util.pyc''\<rparr>) =
     [''/srv/app/util.py''] \<and>
   ''/srv/app/util.py'' \<in> set (iter_module_files example_world) \<and>
   isfile example_world ''/srv/app/util.pyc'' \<and>
   \<not> isfile example_world ''/srv/app/util.py''"
proof -
  have found: "find_file (isfile example_world) ''/srv/app/util.pyc'' = Some ''/srv/app/util.pyc''"
    by (simp add: find_file.simps example_world_def)
  have listed: "Some \<lparr>module_file = Some ''/srv/app/util.pyc''\<rparr> \<in> set (modules example_world)"
    by (simp add: example_world_def)
  have ends: "suffix ''.pyc'' ''/srv/app/util.pyc''"
    by (rule suffixI [of _ "''/srv/app/util''"]) simp
  have "module_files (isfile example_world) (Some \<lparr>module_file = Some ''/srv/app/util.pyc''\<rparr>) =
          [butlast ''/srv/app/util.pyc''] \<and>
        butlast ''/srv/app/util.pyc'' \<in> set (iter_module_files example_world)"
    using rewritten_path_not_rechecked
            [of "\<lparr>module_file = Some ''/srv/app/util.pyc''\<rparr>" example_world
                "''/srv/app/util.pyc''" "''/srv/app/util.pyc''", THEN conjunct1]
          found listed ends
    by simp
  moreover have "isfile example_world ''/srv/app/util.pyc'' \<and>
                 \<not> isfile example_world ''/srv/app/util.py''"
    by (simp add: example_world_def)
  ultimately show ?thesis by simp
qed

subsection \<open>Killing the children of the worker\<close>

lemma bind_assoc: "bind (bind m f) g = bind m (\<lambda>a. bind (f a) g)"
  by (auto simp: bind_def split: prod.splits sum.splits)

lemma bind_return_unit: "bind m (\<lambda>_. ([], Inr ())) = (m :: unit io)"
  by (auto simp: bind_def split: prod.splits sum.splits)

lemma kill_grandchildren_append:
  "kill_grandchildren w (xs @ ys) =
     bind (kill_grandchildren w xs) (\<lambda>_. kill_grandchildren w ys)"
proof (induction xs)
  case Nil
  show ?case by (simp add: bind_def split: prod.splits)
next
  case (Cons x xs)
  then show ?case by (simp add: bind_assoc)
qed

text \<open>The two nested loops signal the tokens of one list, in its order.\<close>

lemma kill_children_flat:
  "kill_children w cs =
     kill_grandchildren w
       (concat (map (\<lambda>c. children_of w c @ [c]) (filter (\<lambda>c. isfile w (children_path c)) cs)))"
proof (induction cs)
  case Nil
  show ?case by simp
next
  case (Cons c cs)
  show ?case
  proof (cases "isfile w (children_path c)")
    case False
    with Cons show ?thesis by simp
  next
    case True
    have "kill_children w (c # cs) =
            bind (kill_grandchildren w (children_of w c)) (\<lambda>_.
            bind (kill_grandchildren w [c]) (\<lambda>_. kill_children w cs))"
      using True by (simp add: children_of_def bind_return_unit)
    also have "\<dots> = kill_grandchildren w ((children_of w c @ [c]) @
          concat (map (\<lambda>c. children_of w c @ [c]) (filter (\<lambda>c. isfile w (children_path c)) cs)))"
      unfolding kill_grandchildren_append [of w "children_of w c @ [c]"]
                kill_grandchildren_append [of w "children_of w c" "[c]"]
      by (simp only: bind_assoc Cons.IH)
    finally show ?thesis using True by simp
  qed
qed

lemma kill_unix_flat:
  "kill_process_children_unix w root_pid =
     (if \<not> isfile w (children_path (str_int root_pid)) then ([], Inr ())
      else kill_grandchildren w (signal_order w root_pid))"
  by (simp add: kill_process_children_unix_def signal_order_def kill_children_flat
        children_of_def)

lemma kill_or_continue_harmless:
  "harmless w t \<Longrightarrow> \<exists>n. to_int w t = Some n \<and> kill_or_continue w t = ([SigTerm n], Inr ())"
  by (auto simp: harmless_def kill_or_continue_def split: option.splits)

lemma kill_or_continue_returns_iff:
  "(\<exists>es. kill_or_continue w t = (es, Inr ())) \<longleftrightarrow> harmless w t"
  by (auto simp: harmless_def kill_or_continue_def split: option.splits)

lemma kill_or_continue_fatal:
  "\<not> harmless w t \<Longrightarrow>
     kill_or_continue w t =
       (case to_int w t of
          None \<Rightarrow> ([], Inl (Raised ValueError))
        | Some n \<Rightarrow> ([SigTerm n], Inl (Raised (the (kill w n)))))"
  by (auto simp: harmless_def kill_or_continue_def split: option.splits)

lemma run_harmless:
  "\<forall>t\<in>set ts. harmless w t \<Longrightarrow>
     \<exists>pids. map (to_int w) ts = map Some pids \<and>
            kill_grandchildren w ts = (map SigTerm pids, Inr ())"
proof (induction ts)
  case Nil
  show ?case by simp
next
  case (Cons t ts)
  from Cons.prems obtain n where n: "to_int w t = Some n"
    "kill_or_continue w t = ([SigTerm n], Inr ())"
    using kill_or_continue_harmless [of w t] by auto
  from Cons obtain pids where p: "map (to_int w) ts = map Some pids"
    "kill_grandchildren w ts = (map SigTerm pids, Inr ())" by auto
  have "map (to_int w) (t # ts) = map Some (n # pids)" using n p by simp
  moreover have "kill_grandchildren w (t # ts) = (map SigTerm (n # pids), Inr ())"
    using n p by (simp add: bind_def)
  ultimately show ?case by blast
qed

lemma run_returns:
  "kill_grandchildren w ts = (tr, Inr ()) \<Longrightarrow> \<forall>t\<in>set ts. harmless w t"
proof (induction ts arbitrary: tr)
  case Nil
  show ?case by simp
next
  case (Cons t ts)
  from Cons.prems obtain es where es: "kill_or_continue w t = (es, Inr ())"
    by (auto simp: bind_def split: prod.splits sum.splits)
  then have h: "harmless w t" using kill_or_continue_returns_iff by blast
  from Cons.prems es obtain tr' where "kill_grandchildren w ts = (tr', Inr ())"
    by (auto simp: bind_def split: prod.splits sum.splits)
  with Cons.IH h show ?case by auto
qed

lemma run_fatal:
  assumes "\<forall>t\<in>set pre. harmless w t" and "\<not> harmless w t"
  shows "\<exists>pids. map (to_int w) pre = map Some pids \<and>
           kill_grandchildren w (pre @ t # post) =
             (map SigTerm pids @ fst (kill_or_continue w t), snd (kill_or_continue w t)) \<and>
           (\<exists>s. snd (kill_or_continue w t) = Inl s)"
proof -
  from run_harmless [OF assms(1)] obtain pids where p: "map (to_int w) pre = map Some pids"
    "kill_grandchildren w pre = (map SigTerm pids, Inr ())" by blast
  obtain es s where k: "kill_or_continue w t = (es, Inl s)"
    using assms(2) by (cases "to_int w t") (auto simp: kill_or_continue_fatal)
  have "kill_grandchildren w (pre @ t # post) = (map SigTerm pids @ es, Inl s)"
    unfolding kill_grandchildren_append using p k by (simp add: bind_def)
  with p k show ?thesis by auto
qed

lemma run_trace_tokens:
  "kill_grandchildren w ts = (tr, r) \<Longrightarrow>
     \<forall>e\<in>set tr. \<exists>t\<in>set ts. \<exists>n. to_int w t = Some n \<and> e = SigTerm n"
proof (induction ts arbitrary: tr r)
  case Nil
  then show ?case by simp
next
  case (Cons t ts)
  obtain es r1 where k: "kill_or_continue w t = (es, r1)" by (cases "kill_or_continue w t")
  then have es: "\<forall>e\<in>set es. \<exists>n. to_int w t = Some n \<and> e = SigTerm n"
    by (auto simp: kill_or_continue_def split: option.splits if_splits)
  show ?case
  proof (cases r1)
    case (Inl s)
    with Cons.prems k have "tr = es" by (simp add: bind_def)
    with es show ?thesis by auto
  next
    case (Inr u)
    obtain tr' r' where rest: "kill_grandchildren w ts = (tr', r')"
      by (cases "kill_grandchildren w ts")
    with Cons.prems k Inr have "tr = es @ tr'" by (simp add: bind_def)
    with es Cons.IH [OF rest] show ?thesis by auto
  qed
qed

lemma signal_order_position:
  assumes c: "c \<in> set (children_of w (str_int root_pid))" "isfile w (children_path c)"
    and g: "g \<in> set (children_of w c)"
  shows "\<exists>i j. i < j \<and> j < length (signal_order w root_pid) \<and>
           signal_order w root_pid ! i = g \<and> signal_order w root_pid ! j = c"
proof -
  let ?f = "\<lambda>c. children_of w c @ [c]"
  let ?cs = "filter (\<lambda>c. isfile w (children_path c)) (children_of w (str_int root_pid))"
  from c have "c \<in> set ?cs" by simp
  then obtain xs ys where cs: "?cs = xs @ c # ys" by (meson split_list)
  from g obtain us vs where gs: "children_of w c = us @ g # vs" by (meson split_list)
  define a where "a = concat (map ?f xs) @ us"
  define b where "b = a @ g # vs"
  define d where "d = concat (map ?f ys)"
  have order: "signal_order w root_pid = b @ c # d"
    unfolding signal_order_def cs a_def b_def d_def by (simp add: gs)
  have "(a @ g # vs @ c # d) ! length a = g" by (rule nth_append_length)
  then have i: "signal_order w root_pid ! length a = g"
    unfolding order b_def by simp
  have "(b @ c # d) ! length b = c" by (rule nth_append_length)
  then have j: "signal_order w root_pid ! length b = c"
    unfolding order by simp
  have "length a < length b" "length b < length (signal_order w root_pid)"
    unfolding order by (simp_all add: b_def)
  with i j show ?thesis by blast
qed

lemma signal_order_child:
  "c \<in> set (children_of w (str_int root_pid)) \<Longrightarrow> isfile w (children_path c) \<Longrightarrow>
     c \<in> set (signal_order w root_pid)"
  by (auto simp: signal_order_def)

text \<open>
  Claim C2, as the code has it. When the children list of the root is absent the function
  does nothing. Otherwise, when it returns normally, the signals it sent are those of the
  signalling order, in that order: every child of the root whose own children list is
  present is signalled, after each of its children. Whatever the outcome, only processes
  listed in the signalling order are signalled: not the root, which no children list
  names, and not on its own account a child whose children list is absent.
\<close>

theorem descendants_signalled_in_order:
  "(\<not> isfile w (children_path (str_int root_pid)) \<longrightarrow>
      kill_process_children_unix w root_pid = ([], Inr ())) \<and>
   (isfile w (children_path (str_int root_pid)) \<and>
    kill_process_children_unix w root_pid = (tr, Inr ()) \<longrightarrow>
      (\<exists>pids. map (to_int w) (signal_order w root_pid) = map Some pids \<and>
              tr = map SigTerm pids) \<and>
      (\<forall>c g. c \<in> set (children_of w (str_int root_pid)) \<and> isfile w (children_path c) \<and>
             g \<in> set (children_of w c) \<longrightarrow>
         (\<exists>i j n m. i < j \<and> j < length tr \<and> to_int w g = Some n \<and> to_int w c = Some m \<and>
                    tr ! i = SigTerm n \<and> tr ! j = SigTerm m)) \<and>
      (\<forall>c. c \<in> set (children_of w (str_int root_pid)) \<and> isfile w (children_path c) \<longrightarrow>
         (\<exists>m. to_int w c = Some m \<and> SigTerm m \<in> set tr))) \<and>
   ((\<forall>t\<in>set (signal_order w root_pid). to_int w t \<noteq> Some p) \<longrightarrow>
      SigTerm p \<notin> set (fst (kill_process_children_unix w root_pid)))"
proof (intro conjI impI)
  assume "\<not> isfile w (children_path (str_int root_pid))"
  then show "kill_process_children_unix w root_pid = ([], Inr ())"
    by (simp add: kill_unix_flat)
next
  assume a: "isfile w (children_path (str_int root_pid)) \<and>
             kill_process_children_unix w root_pid = (tr, Inr ())"
  then have run: "kill_grandchildren w (signal_order w root_pid) = (tr, Inr ())"
    by (auto simp: kill_unix_flat)
  from run_harmless [OF run_returns [OF run]] run obtain pids where
    pids: "map (to_int w) (signal_order w root_pid) = map Some pids" "tr = map SigTerm pids"
    by auto
  then show "\<exists>pids. map (to_int w) (signal_order w root_pid) = map Some pids \<and>
                   tr = map SigTerm pids" by blast
  have len: "length pids = length (signal_order w root_pid)"
    using pids(1) by (metis length_map)
  have at: "to_int w (signal_order w root_pid ! k) = Some (pids ! k) \<and>
            tr ! k = SigTerm (pids ! k)" if "k < length pids" for k
  proof -
    have "map (to_int w) (signal_order w root_pid) ! k = map Some pids ! k"
      using pids(1) by simp
    then show ?thesis using that len pids(2) by simp
  qed
  show "\<forall>c g. c \<in> set (children_of w (str_int root_pid)) \<and> isfile w (children_path c) \<and>
             g \<in> set (children_of w c) \<longrightarrow>
         (\<exists>i j n m. i < j \<and> j < length tr \<and> to_int w g = Some n \<and> to_int w c = Some m \<and>
                    tr ! i = SigTerm n \<and> tr ! j = SigTerm m)"
  proof (intro allI impI)
    fix c g
    assume "c \<in> set (children_of w (str_int root_pid)) \<and> isfile w (children_path c) \<and>
            g \<in> set (children_of w c)"
    then obtain i j where ij: "i < j" "j < length (signal_order w root_pid)"
      "signal_order w root_pid ! i = g" "signal_order w root_pid ! j = c"
      using signal_order_position [of c w root_pid g] by blast
    then have "i < length pids" "j < length pids" using len by simp_all
    from at [OF this(1)] at [OF this(2)] ij pids(2) len
    show "\<exists>i j n m. i < j \<and> j < length tr \<and> to_int w g = Some n \<and> to_int w c = Some m \<and>
                    tr ! i = SigTerm n \<and> tr ! j = SigTerm m"
      by (intro exI [of _ i] exI [of _ j] exI [of _ "pids ! i"] exI [of _ "pids ! j"]) simp
  qed
  show "\<forall>c. c \<in> set (children_of w (str_int root_pid)) \<and> isfile w (children_path c) \<longrightarrow>
         (\<exists>m. to_int w c = Some m \<and> SigTerm m \<in> set tr)"
  proof (intro allI impI)
    fix c
    assume "c \<in> set (children_of w (str_int root_pid)) \<and> isfile w (children_path c)"
    then have "c \<in> set (signal_order w root_pid)" by (simp add: signal_order_child)
    then obtain k where k: "k < length (signal_order w root_pid)"
      "signal_order w root_pid ! k = c" by (meson in_set_conv_nth)
    then have kp: "k < length pids" using len by simp
    from at [OF kp] k kp pids(2)
    show "\<exists>m. to_int w c = Some m \<and> SigTerm m \<in> set tr"
      by (intro exI [of _ "pids ! k"]) auto
  qed
next
  assume no: "\<forall>t\<in>set (signal_order w root_pid). to_int w t \<noteq> Some p"
  show "SigTerm p \<notin> set (fst (kill_process_children_unix w root_pid))"
  proof (cases "isfile w (children_path (str_int root_pid))")
    case False
    then show ?thesis by (simp add: kill_unix_flat)
  next
    case True
    obtain tr r where run: "kill_grandchildren w (signal_order w root_pid) = (tr, r)"
      by (cases "kill_grandchildren w (signal_order w root_pid)")
    from run_trace_tokens [OF run] no have "SigTerm p \<notin> set tr" by auto
    with True run show ?thesis by (simp add: kill_unix_flat)
  qed
qed

text \<open>
  The claim as stated, that every direct child of the root is signalled, fails in two
  ways. In the example world the children list of child 300 is absent: 300 is listed as
  a child of the root 100, the function returns normally, and 300 was never signalled.
  In the world where signalling the grandchild 400 is not permitted, the function ends
  with \<^verbatim>\<open>PermissionError\<close> at that \<^verbatim>\<open>os.kill\<close>: the child 200, whose children list is
  present, was never signalled either.
\<close>

theorem direct_child_skipped_counterexample:
  "isfile example_world (children_path (str_int 100)) \<and>
   ''300'' \<in> set (children_of example_world (str_int 100)) \<and>
   to_int example_world ''300'' = Some 300 \<and>
   \<not> isfile example_world (children_path ''300'') \<and>
   kill_process_children_unix example_world 100 =
     ([SigTerm 400, SigTerm 401, SigTerm 200], Inr ()) \<and>
   SigTerm 300 \<notin> set (fst (kill_process_children_unix example_world 100)) \<and>
   ''200'' \<in> set (children_of example_denied (str_int 100)) \<and>
   to_int example_denied ''200'' = Some 200 \<and>
   isfile example_denied (children_path ''200'') \<and>
   kill_process_children_unix example_denied 100 =
     ([SigTerm 400], Inl (Raised PermissionError)) \<and>
   SigTerm 200 \<notin> set (fst (kill_process_children_unix example_denied 100))"
  by (simp add: kill_simps example_world_def example_denied_def)

theorem descendants_signalled_in_order_witness:
  "kill_process_children_unix example_world 100 =
     ([SigTerm 400, SigTerm 401, SigTerm 200], Inr ()) \<and>
   signal_order example_world 100 = [''400'', ''401'', ''200''] \<and>
   SigTerm 100 \<notin> set (fst (kill_process_children_unix example_world 100)) \<and>
   kill_process_children_unix (example_world\<lparr>isfile := (\<lambda>p. False)\<rparr>) 100 = ([], Inr ())"
proof -
  have run: "isfile example_world (children_path (str_int 100)) \<and>
             kill_process_children_unix example_world 100 =
               ([SigTerm 400, SigTerm 401, SigTerm 200], Inr ())"
    by (simp add: kill_simps example_world_def)
  have order: "signal_order example_world 100 = [''400'', ''401'', ''200'']"
    by (simp add: kill_simps example_world_def)
  have "\<forall>t\<in>set (signal_order example_world 100). to_int example_world t \<noteq> Some 100"
    unfolding order by (simp add: example_world_def parse_pid_def digit_value_def)
  then have "SigTerm 100 \<notin> set (fst (kill_process_children_unix example_world 100))"
    using descendants_signalled_in_order [of example_world 100 _ 100] by blast
  moreover have "kill_process_children_unix (example_world\<lparr>isfile := (\<lambda>p. False)\<rparr>) 100 =
                   ([], Inr ())"
    using descendants_signalled_in_order [of "example_world\<lparr>isfile := (\<lambda>p. False)\<rparr>" 100]
    by simp
  moreover have "\<exists>pids. map (to_int example_world) (signal_order example_world 100) =
                   map Some pids \<and>
                 [SigTerm 400, SigTerm 401, SigTerm 200] = map SigTerm pids"
    using descendants_signalled_in_order
            [of example_world 100 "[SigTerm 400, SigTerm 401, SigTerm 200]"] run
    by blast
  ultimately show ?thesis using run order by simp
qed



text \<open>
  Claim C10. The block returns normally exactly for a harmless token: an integer whose
  process is signalled or raises \<^verbatim>\<open>ProcessLookupError\<close>. At the first token of the
  signalling order that is not an integer (\<^verbatim>\<open>ValueError\<close>), or whose
  \<^verbatim>\<open>os.kill\<close> raises an exception \<open>e\<close> other than \<^verbatim>\<open>ProcessLookupError\<close>, the
  function ends with that exception: the tokens before it were signalled, this one was
  passed to \<^verbatim>\<open>os.kill\<close> if it is an integer, and no later token is signalled.
\<close>

theorem other_exceptions_propagate:
  "((\<exists>es. kill_or_continue w token = (es, Inr ())) \<longleftrightarrow>
      (\<exists>n. to_int w token = Some n \<and>
           (kill w n = None \<or> kill w n = Some ProcessLookupError))) \<and>
   (isfile w (children_path (str_int root_pid)) \<and>
    signal_order w root_pid = pre @ token # post \<and>
    (\<forall>t\<in>set pre. harmless w t) \<and>
    (to_int w token = None \<and> e = ValueError \<or>
     (\<exists>n. to_int w token = Some n \<and> kill w n = Some e \<and> e \<noteq> ProcessLookupError)) \<longrightarrow>
      (\<exists>pids. map (to_int w) pre = map Some pids \<and>
         kill_process_children_unix w root_pid =
           (map SigTerm pids @ (case to_int w token of None \<Rightarrow> [] | Some n \<Rightarrow> [SigTerm n]),
            Inl (Raised e))))"
proof (intro conjI impI)
  show "(\<exists>es. kill_or_continue w token = (es, Inr ())) \<longleftrightarrow>
      (\<exists>n. to_int w token = Some n \<and>
           (kill w n = None \<or> kill w n = Some ProcessLookupError))"
    unfolding kill_or_continue_returns_iff by (auto simp: harmless_def split: option.splits)
next
  assume a: "isfile w (children_path (str_int root_pid)) \<and>
    signal_order w root_pid = pre @ token # post \<and>
    (\<forall>t\<in>set pre. harmless w t) \<and>
    (to_int w token = None \<and> e = ValueError \<or>
     (\<exists>n. to_int w token = Some n \<and> kill w n = Some e \<and> e \<noteq> ProcessLookupError))"
  then have nh: "\<not> harmless w token" by (auto simp: harmless_def)
  have k: "kill_or_continue w token =
             (case to_int w token of None \<Rightarrow> [] | Some n \<Rightarrow> [SigTerm n], Inl (Raised e))"
    using a by (auto simp: kill_or_continue_def)
  from a have h: "\<forall>t\<in>set pre. harmless w t" by simp
  from run_fatal [OF h nh, of post] obtain pids where
    "map (to_int w) pre = map Some pids"
    "kill_grandchildren w (pre @ token # post) =
       (map SigTerm pids @ fst (kill_or_continue w token), snd (kill_or_continue w token))"
    by blast
  with a k show "\<exists>pids. map (to_int w) pre = map Some pids \<and>
         kill_process_children_unix w root_pid =
           (map SigTerm pids @ (case to_int w token of None \<Rightarrow> [] | Some n \<Rightarrow> [SigTerm n]),
            Inl (Raised e))"
    by (auto simp: kill_unix_flat)
qed

theorem other_exceptions_propagate_witness:
  "kill_process_children_unix
     (example_world\<lparr>kill := (\<lambda>n. if n = 401 then Some PermissionError else None)\<rparr>) 100 =
     ([SigTerm 400, SigTerm 401], Inl (Raised PermissionError)) \<and>
   kill_process_children_unix
     (example_world\<lparr>to_int := (\<lambda>t. if t = ''401'' then None else parse_pid t)\<rparr>) 100 =
     ([SigTerm 400], Inl (Raised ValueError))"
proof -
  let ?w = "example_world\<lparr>kill := (\<lambda>n. if n = 401 then Some PermissionError else None)\<rparr>"
  let ?v = "example_world\<lparr>to_int := (\<lambda>t. if t = ''401'' then None else parse_pid t)\<rparr>"
  have w: "isfile ?w (children_path (str_int 100)) \<and>
        signal_order ?w 100 = [''400''] @ ''401'' # [''200''] \<and>
        (\<forall>t\<in>set [''400'']. harmless ?w t) \<and>
        (to_int ?w ''401'' = None \<and> PermissionError = ValueError \<or>
         (\<exists>n. to_int ?w ''401'' = Some n \<and> kill ?w n = Some PermissionError \<and>
              PermissionError \<noteq> ProcessLookupError))"
    by (simp add: kill_simps example_world_def)
  have v: "isfile ?v (children_path (str_int 100)) \<and>
        signal_order ?v 100 = [''400''] @ ''401'' # [''200''] \<and>
        (\<forall>t\<in>set [''400'']. harmless ?v t) \<and>
        (to_int ?v ''401'' = None \<and> ValueError = ValueError \<or>
         (\<exists>n. to_int ?v ''401'' = Some n \<and> kill ?v n = Some ValueError \<and>
              ValueError \<noteq> ProcessLookupError))"
    by (simp add: kill_simps example_world_def)
  have "\<exists>pids. map (to_int ?w) [''400''] = map Some pids \<and>
          kill_process_children_unix ?w 100 =
            (map SigTerm pids @ (case to_int ?w ''401'' of None \<Rightarrow> [] | Some n \<Rightarrow> [SigTerm n]),
             Inl (Raised PermissionError))"
    using other_exceptions_propagate
            [where w = ?w and root_pid = 100 and pre = "[''400'']" and token = "''401''"
               and post = "[''200'']" and e = PermissionError, THEN conjunct2] w
    by blast
  moreover have "\<exists>pids. map (to_int ?v) [''400''] = map Some pids \<and>
          kill_process_children_unix ?v 100 =
            (map SigTerm pids @ (case to_int ?v ''401'' of None \<Rightarrow> [] | Some n \<Rightarrow> [SigTerm n]),
             Inl (Raised ValueError))"
    using other_exceptions_propagate
            [where w = ?v and root_pid = 100 and pre = "[''400'']" and token = "''401''"
               and post = "[''200'']" and e = ValueError, THEN conjunct2] v
    by blast
  ultimately show ?thesis
    by (auto simp: example_world_def parse_pid_def digit_value_def)
qed

subsection \<open>The poll cycle\<close>



text \<open>
  What one pass of the \<^verbatim>\<open>for\<close> loop leaves behind, when \<^verbatim>\<open>os.stat\<close> answers the same
  for a path throughout the pass: the flag was raised for exactly the paths that were in the
  table with a smaller time, and the table holds the greater of the two times.
\<close>

lemma scan_files_result:
  "scan_files stat files mt nr =
     (\<lambda>p. if p \<in> set files
           then (case stat p of
                   None \<Rightarrow> mt p
                 | Some t \<Rightarrow>
                     (case mt p of
                        None \<Rightarrow> Some t
                      | Some old \<Rightarrow> Some (if old < t then t else old)))
           else mt p,
      nr \<or> (\<exists>p\<in>set files. \<exists>t old. stat p = Some t \<and> mt p = Some old \<and> old < t))"
proof (induction files arbitrary: mt nr)
  case Nil
  show ?case by simp
next
  case (Cons f files)
  show ?case
  proof (cases "stat f")
    case None
    show ?thesis
      unfolding scan_files.simps None option.case Cons.IH
      by (rule prod_eqI) (auto simp: None fun_eq_iff split: option.splits)
  next
    case (Some t)
    show ?thesis
    proof (cases "mt f")
      case None
      have flag: "(\<exists>p\<in>set files. \<exists>t' old. stat p = Some t' \<and> (mt(f \<mapsto> t)) p = Some old \<and> old < t') \<longleftrightarrow>
            (\<exists>p\<in>set (f # files). \<exists>t' old. stat p = Some t' \<and> mt p = Some old \<and> old < t')"
        using Some None by (auto split: if_splits) (metis option.distinct(1))
      have tab: "(if p \<in> set files
           then (case stat p of None \<Rightarrow> (mt(f \<mapsto> t)) p
                 | Some t' \<Rightarrow> (case (mt(f \<mapsto> t)) p of None \<Rightarrow> Some t'
                      | Some old \<Rightarrow> Some (if old < t' then t' else old)))
           else (mt(f \<mapsto> t)) p) =
          (if p \<in> set (f # files)
           then (case stat p of None \<Rightarrow> mt p
                 | Some t' \<Rightarrow> (case mt p of None \<Rightarrow> Some t'
                      | Some old \<Rightarrow> Some (if old < t' then t' else old)))
           else mt p)" for p
        using Some None by (auto split: option.splits)
      show ?thesis
        unfolding scan_files.simps Some None option.case Cons.IH flag
        by (simp add: tab)
    next
      case old: (Some old)
      show ?thesis
      proof (cases "old < t")
        case True
        have flag: "(\<exists>p\<in>set files. \<exists>t' old. stat p = Some t' \<and> (mt(f \<mapsto> t)) p = Some old \<and> old < t') \<or> True"
          by simp
        have tab: "(if p \<in> set files
           then (case stat p of None \<Rightarrow> (mt(f \<mapsto> t)) p
                 | Some t' \<Rightarrow> (case (mt(f \<mapsto> t)) p of None \<Rightarrow> Some t'
                      | Some old \<Rightarrow> Some (if old < t' then t' else old)))
           else (mt(f \<mapsto> t)) p) =
          (if p \<in> set (f # files)
           then (case stat p of None \<Rightarrow> mt p
                 | Some t' \<Rightarrow> (case mt p of None \<Rightarrow> Some t'
                      | Some old \<Rightarrow> Some (if old < t' then t' else old)))
           else mt p)" for p
          using Some old True by (auto split: option.splits)
        have r: "(nr \<or> (\<exists>p\<in>set (f # files). \<exists>t' old. stat p = Some t' \<and> mt p = Some old \<and> old < t')) = True"
          using Some old True by auto
        show ?thesis
          unfolding scan_files.simps Some old option.case Cons.IH r
          using True by (simp add: tab)
      next
        case False
        have flag: "(\<exists>p\<in>set files. \<exists>t' old. stat p = Some t' \<and> mt p = Some old \<and> old < t') \<longleftrightarrow>
            (\<exists>p\<in>set (f # files). \<exists>t' old. stat p = Some t' \<and> mt p = Some old \<and> old < t')"
          using Some old False by auto
        have tab: "(if p \<in> set files
           then (case stat p of None \<Rightarrow> mt p
                 | Some t' \<Rightarrow> (case mt p of None \<Rightarrow> Some t'
                      | Some old \<Rightarrow> Some (if old < t' then t' else old)))
           else mt p) =
          (if p \<in> set (f # files)
           then (case stat p of None \<Rightarrow> mt p
                 | Some t' \<Rightarrow> (case mt p of None \<Rightarrow> Some t'
                      | Some old \<Rightarrow> Some (if old < t' then t' else old)))
           else mt p)" for p
          using Some old False by (auto split: option.splits)
        show ?thesis
          unfolding scan_files.simps Some old option.case Cons.IH flag
          using False by (simp add: tab)
      qed
    qed
  qed
qed

lemma advanced_iff:
  "advanced w mt p \<longleftrightarrow> (\<exists>t old. stat_mtime w p = Some t \<and> mt p = Some old \<and> old < t)"
  by (auto simp: advanced_def split: option.splits)

lemma need_reload_iff:
  "snd (scan_files (stat_mtime w) files mt False) \<longleftrightarrow> (\<exists>p\<in>set files. advanced w mt p)"
  unfolding scan_files_result advanced_iff by simp

text \<open>The steps of the loop, taken in one world, make up the iteration.\<close>

lemma iteration_is_run:
  assumes "point s = Poll"
  shows "watchdog_iteration w s =
           run (if \<exists>p\<in>set (iter_module_files w). advanced w (mtimes s) p
                then [Step w, Step w, Step w, Step w, Step w] else [Step w, Step w]) s"
proof -
  obtain mt nr where sc:
    "scan_files (stat_mtime w) (iter_module_files w) (mtimes s) False = (mt, nr)"
    by (cases "scan_files (stat_mtime w) (iter_module_files w) (mtimes s) False")
  have nr: "nr \<longleftrightarrow> (\<exists>p\<in>set (iter_module_files w). advanced w (mtimes s) p)"
    using need_reload_iff [of w "iter_module_files w" "mtimes s"] sc by simp
  obtain ks r where k: "kill_process_children w (pid (worker_process s)) = (ks, r)"
    by (cases "kill_process_children w (pid (worker_process s))")
  obtain es r' where l: "restart_with_reloader w = (es, r')"
    by (cases "restart_with_reloader w")
  show ?thesis
  proof (cases nr)
    case False
    with nr sc assms show ?thesis
      by (simp add: watchdog_iteration_def step_def bind_def)
  next
    case True
    with nr sc assms k l show ?thesis
      by (cases r; cases r') (simp_all add: watchdog_iteration_def step_def bind_def)
  qed
qed



text \<open>
  Claim C4. When a path that can be stat-ed has no entry in the table, the loop body
  records its time and leaves \<^verbatim>\<open>need_reload\<close> as it was. Over the whole pass the table
  then holds that time for the path, and \<^verbatim>\<open>need_reload\<close> is what the pass over the other
  enumerated paths alone would have made it. So an iteration in which every enumerated
  path that can be stat-ed is new goes to sleep without a reload.
\<close>

theorem first_sight_sets_baseline:
  "mt p = None \<and> stat_mtime w p = Some t \<longrightarrow>
     scan_files (stat_mtime w) (p # rest) mt need_reload =
       scan_files (stat_mtime w) rest (mt(p \<mapsto> t)) need_reload \<and>
     (p \<in> set files \<longrightarrow>
        fst (scan_files (stat_mtime w) files mt False) p = Some t \<and>
        snd (scan_files (stat_mtime w) files mt False) =
          snd (scan_files (stat_mtime w) (removeAll p files) mt False)) \<and>
     (point s = Poll \<and> mtimes s = mt \<and>
      (\<forall>q\<in>set (iter_module_files w). stat_mtime w q \<noteq> None \<longrightarrow> mt q = None) \<longrightarrow>
        (\<exists>mt'. step w s = ([], Inr (s\<lparr>mtimes := mt', point := Sleeping\<rparr>)) \<and> mt' p =
           (if p \<in> set (iter_module_files w) then Some t else None)))"
proof (intro impI conjI)
  assume a: "mt p = None \<and> stat_mtime w p = Some t"
  then show "scan_files (stat_mtime w) (p # rest) mt need_reload =
       scan_files (stat_mtime w) rest (mt(p \<mapsto> t)) need_reload"
    by simp
  {
    assume "p \<in> set files"
    then show "fst (scan_files (stat_mtime w) files mt False) p = Some t"
      using a unfolding scan_files_result by simp
    have "(\<exists>q\<in>set files. advanced w mt q) \<longleftrightarrow> (\<exists>q\<in>set (removeAll p files). advanced w mt q)"
      using a by (auto simp: advanced_def)
    then show "snd (scan_files (stat_mtime w) files mt False) =
          snd (scan_files (stat_mtime w) (removeAll p files) mt False)"
      unfolding need_reload_iff by simp
  }
  assume b: "point s = Poll \<and> mtimes s = mt \<and>
      (\<forall>q\<in>set (iter_module_files w). stat_mtime w q \<noteq> None \<longrightarrow> mt q = None)"
  then have no: "\<not> (\<exists>q\<in>set (iter_module_files w). advanced w (mtimes s) q)"
    by (auto simp: advanced_def split: option.splits)
  obtain mt' nr where sc:
    "scan_files (stat_mtime w) (iter_module_files w) (mtimes s) False = (mt', nr)"
    by (cases "scan_files (stat_mtime w) (iter_module_files w) (mtimes s) False")
  have "\<not> nr"
    using need_reload_iff [of w "iter_module_files w" "mtimes s"] sc no by simp
  then have "step w s = ([], Inr (s\<lparr>mtimes := mt', point := Sleeping\<rparr>))"
    using b sc by (simp add: step_def)
  moreover have "mt' p = (if p \<in> set (iter_module_files w) then Some t else None)"
    using sc a b unfolding scan_files_result by auto
  ultimately show "\<exists>mt'. step w s = ([], Inr (s\<lparr>mtimes := mt', point := Sleeping\<rparr>)) \<and> mt' p =
           (if p \<in> set (iter_module_files w) then Some t else None)"
    by blast
qed

theorem first_sight_sets_baseline_witness:
  "fst (scan_files (stat_mtime example_world) (iter_module_files example_world) Map.empty False)
     ''/srv/app/server.py'' = Some 10 \<and>
   \<not> snd (scan_files (stat_mtime example_world) (iter_module_files example_world)
            Map.empty False) \<and>
   fst (watchdog example_world [Step example_world, Step example_world]) =
     [Spawn [''/usr/bin/python3'', ''/srv/app/server.py'', ''--debug''] (Popen 100), Sleep]"
proof -
  have files: "iter_module_files example_world =
                 [''/srv/app/server.py'', ''/srv/app/util.py'', ''/srv/lib.zip'']"
    by (simp add: world_simps)
  have new: "(Map.empty :: string \<rightharpoonup> nat) ''/srv/app/server.py'' = None \<and>
             stat_mtime example_world ''/srv/app/server.py'' = Some 10"
    by (simp add: example_world_def)
  have listed: "''/srv/app/server.py'' \<in> set (iter_module_files example_world)"
    unfolding files by simp
  note c4 = first_sight_sets_baseline
    [of Map.empty "''/srv/app/server.py''" example_world 10 _ _ "iter_module_files example_world",
     rule_format, OF new]
  have "fst (scan_files (stat_mtime example_world) (iter_module_files example_world)
          Map.empty False) ''/srv/app/server.py'' = Some 10"
    using c4 listed by blast
  moreover have "\<not> snd (scan_files (stat_mtime example_world)
                   (iter_module_files example_world) Map.empty False)"
    unfolding files by (simp add: example_world_def)
  moreover have "fst (watchdog example_world [Step example_world, Step example_world]) =
     [Spawn [''/usr/bin/python3'', ''/srv/app/server.py'', ''--debug''] (Popen 100), Sleep]"
    by (simp add: watchdog_def step_def world_simps bind_def)
  ultimately show ?thesis by simp
qed

subsection \<open>Signals\<close>















end
